theory Spec2Isabelle
  imports Main
begin

section \<open>The env_file module: shell variable declarations in a file of lines\<close>

text \<open>
  The development embeds the line classifier (\<open>match_var\<close>, \<open>match_active_var\<close>,
  \<open>is_exported\<close>), the value quoting (\<open>shell_escape\<close>) and the in-memory part of
  \<open>apply\<close> of \<open>src/lib/env_file.py\<close>: everything between reading the file into
  \<open>env_lines\<close> and writing it back when \<open>changed\<close> is set.
  Strings are \<open>char list\<close>, a character being a code point below 256: a byte of a
  Python 2 string, a Latin-1 character of a Python 3 string. A file is the list of lines
  \<open>readlines\<close> returns.
\<close>

subsection \<open>The interpreter\<close>

text \<open>
  The module runs under Python 2.7 and under Python 3 (3.5 and later). The two differ,
  for this module, in the class \<open>\s\<close> of the \<open>re\<close> module and in whether the standard
  library has \<open>shlex.quote\<close>.
\<close>

datatype python = Python2 | Python3

subsection \<open>Characters\<close>

definition NL :: char where
  "NL = CHR 0x0A"

definition SQ :: char where
  "SQ = CHR 0x27"

definition DQ :: char where
  "DQ = CHR 0x22"

definition BS :: char where
  "BS = CHR 0x5C"

text \<open>
  The class \<open>\s\<close> of the \<open>re\<close> module. For the byte strings of Python 2 (no \<open>LOCALE\<close> or
  \<open>UNICODE\<close> flag) it is space, tab, line feed, vertical tab, form feed and carriage
  return. For the strings of Python 3 (no \<open>ASCII\<close> flag) it is the Unicode whitespace,
  which below 256 adds the separators \<open>0x1C\<close> to \<open>0x1F\<close>, the next-line character \<open>0x85\<close>
  and the no-break space \<open>0xA0\<close>. The class \<open>.\<close> is every character but the line feed.
\<close>

definition is_space :: "python \<Rightarrow> char \<Rightarrow> bool" where
  "is_space py c =
     (c = CHR '' '' \<or> c = CHR 0x09 \<or> c = CHR 0x0A \<or> c = CHR 0x0B \<or> c = CHR 0x0C \<or> c = CHR 0x0D
      \<or> (py = Python3
          \<and> (c = CHR 0x1C \<or> c = CHR 0x1D \<or> c = CHR 0x1E \<or> c = CHR 0x1F \<or> c = CHR 0x85 \<or> c = CHR 0xA0)))"

definition dot :: "char \<Rightarrow> bool" where
  "dot c = (c \<noteq> CHR 0x0A)"

subsection \<open>The regular expressions of the module\<close>

text \<open>
  Every pattern of the module is a sequence of items: a literal text (what
  \<open>re.escape\<close> makes of the variable name, and the keyword \<open>export\<close>), a starred or
  plussed character class, an optional character, and the anchor \<open>$\<close>, which holds at the
  end of the string and just before a line feed that ends the string. \<open>re_match\<close> is
  \<open>re.match\<close> read as a truth value: it tries every way the backtracking matcher can split
  the string, anchored at the start (where the leading \<open>^\<close> holds) and not at the end.
\<close>

datatype item =
    Lit string
  | Star "char \<Rightarrow> bool"
  | Plus "char \<Rightarrow> bool"
  | Opt char
  | Eol

fun re_match :: "item list \<Rightarrow> string \<Rightarrow> bool" where
  "re_match [] s = True"
| "re_match (Lit t # p) s = (take (length t) s = t \<and> re_match p (drop (length t) s))"
| "re_match (Opt c # p) [] = re_match p []"
| "re_match (Opt c # p) (x # xs) = ((x = c \<and> re_match p xs) \<or> re_match p (x # xs))"
| "re_match (Star P # p) [] = re_match p []"
| "re_match (Star P # p) (x # xs) = ((P x \<and> re_match (Star P # p) xs) \<or> re_match p (x # xs))"
| "re_match (Plus P # p) [] = False"
| "re_match (Plus P # p) (x # xs) = (P x \<and> re_match (Star P # p) xs)"
| "re_match (Eol # p) s = ((s = [] \<or> s = [NL]) \<and> re_match p s)"

subsection \<open>The line classifier\<close>

text \<open>
  \<open>match_var\<close>: \<open>^\s*#?\s*NAME=.*$\<close> or \<open>^\s*#?\s*export\s+NAME=.*$\<close>, with the escaped
  name as a literal.
\<close>

definition match_var :: "python \<Rightarrow> string \<Rightarrow> string \<Rightarrow> bool" where
  "match_var py name line =
     (re_match [Star (is_space py), Opt (CHR ''#''), Star (is_space py), Lit name, Lit ''='',
                Star dot, Eol] line
      \<or> re_match [Star (is_space py), Opt (CHR ''#''), Star (is_space py), Lit ''export'',
                   Plus (is_space py), Lit name, Lit ''='', Star dot, Eol] line)"

text \<open>
  \<open>match_active_var\<close>: \<open>^\s*NAME=.*$\<close> or \<open>^\s*export\s+NAME=.*$\<close>.
\<close>

definition match_active_var :: "python \<Rightarrow> string \<Rightarrow> string \<Rightarrow> bool" where
  "match_active_var py name line =
     (re_match [Star (is_space py), Lit name, Lit ''='', Star dot, Eol] line
      \<or> re_match [Star (is_space py), Lit ''export'', Plus (is_space py), Lit name, Lit ''='',
                   Star dot, Eol] line)"

text \<open>
  \<open>is_exported\<close>: \<open>^\s*export\s*.+$\<close>.
\<close>

definition is_exported :: "python \<Rightarrow> string \<Rightarrow> bool" where
  "is_exported py line =
     re_match [Star (is_space py), Lit ''export'', Star (is_space py), Plus dot, Eol] line"

subsection \<open>Quoting a value\<close>

text \<open>
  \<open>str.replace(old, new)\<close>: the occurrences of \<open>old\<close> are replaced from left to right
  without overlap; an empty \<open>old\<close> puts \<open>new\<close> before every character and at the end.
\<close>

function replace :: "string \<Rightarrow> string \<Rightarrow> string \<Rightarrow> string" where
  "replace old new [] = (if old = [] then new else [])"
| "replace old new (c # cs) =
     (if old = [] then new @ c # replace old new cs
      else if take (length old) (c # cs) = old
           then new @ replace old new (drop (length old) (c # cs))
           else c # replace old new cs)"
  by pat_completeness auto
termination
  by (relation "measure (\<lambda>(old, new, s). length s)") auto

text \<open>
  \<open>shlex.quote\<close> belongs to the Python standard library, not to the module. Before
  Python 3.3 the name does not exist, the attribute lookup raises and the bare
  \<open>except\<close> of \<open>shell_escape\<close> takes over; from 3.3 on it is \<open>shlex_quote\<close> below: the empty
  string becomes two quotes, a string of safe characters only (\<open>[\w@%+=:,./-]\<close>, ASCII)
  is returned as it is, and anything else is put in single quotes with each single quote
  written \<open>'"'"'\<close>.
\<close>

definition safe_char :: "char \<Rightarrow> bool" where
  "safe_char c =
     (c \<in> set ''abcdefghijklmnopqrstuvwxyzABCDEFGHIJKLMNOPQRSTUVWXYZ0123456789_''
      \<or> c \<in> set ''@%+=:,./-'')"

definition shlex_quote :: "string \<Rightarrow> string" where
  "shlex_quote s =
     (if s = [] then [SQ, SQ]
      else if list_all safe_char s then s
      else [SQ] @ replace [SQ] [SQ, DQ, SQ, DQ, SQ] s @ [SQ])"

text \<open>
  \<open>shell_escape\<close> takes the interpreter's \<open>shlex.quote\<close> as a parameter: \<open>Some quote\<close>
  where the standard library has it, \<open>None\<close> where the lookup raises and the fallback
  \<open>"'%s'" % text.replace("'", "'\\''")\<close> runs.
\<close>

definition shell_escape :: "(string \<Rightarrow> string) option \<Rightarrow> string \<Rightarrow> string" where
  "shell_escape shlex text =
     (case shlex of
        Some quote \<Rightarrow> quote text
      | None \<Rightarrow> [SQ] @ replace [SQ] [SQ, BS, SQ, SQ] text @ [SQ])"

text \<open>
  What the lookup of \<open>shlex.quote\<close> gives under each interpreter.
\<close>

definition shlex :: "python \<Rightarrow> (string \<Rightarrow> string) option" where
  "shlex py = (case py of Python2 \<Rightarrow> None | Python3 \<Rightarrow> Some shlex_quote)"

subsection \<open>The rewrite of the lines\<close>

datatype state = Absent | Present | Local | Exported

datatype error = NameError

text \<open>
  The local variables of \<open>apply\<close> that the loops update. \<open>env_lines\<close> is what the caller
  writes back to the file when \<open>changed\<close> is set.
\<close>

record vars =
  env_lines :: "string list"
  changed :: bool
  msg :: string
  matched_line :: bool

text \<open>
  \<open>del env_lines[index]\<close>. The module deletes at an index below the length only; beyond
  it Python raises and this function returns the list as it is.
\<close>

definition del_at :: "nat \<Rightarrow> 'a list \<Rightarrow> 'a list" where
  "del_at index xs = take index xs @ drop (Suc index) xs"

text \<open>
  The inner \<open>while\<close> loop: from \<open>index\<close> on, every line that is an active declaration of
  the variable is deleted in place.
\<close>

function while_loop :: "python \<Rightarrow> string \<Rightarrow> nat \<Rightarrow> string list \<Rightarrow> string list" where
  "while_loop py var index ls =
     (if index < length ls
      then (if match_active_var py var (ls ! index)
            then while_loop py var index (del_at index ls)
            else while_loop py var (index + 1) ls)
      else ls)"
  by pat_completeness auto
termination
  by (relation "measure (\<lambda>(py, var, index, ls). length ls - index)") (auto simp: del_at_def)

declare while_loop.simps [simp del]

text \<open>
  The \<open>for\<close> loop over \<open>enumerate(env_lines)\<close>, from \<open>index\<close> on. Both branches that
  change the list end in \<open>break\<close>, so the loop goes on over an unchanged list only.
\<close>

function for_loop :: "python \<Rightarrow> string \<Rightarrow> string \<Rightarrow> state \<Rightarrow> nat \<Rightarrow> vars \<Rightarrow> vars" where
  "for_loop py var line_value st index s =
     (if index < length (env_lines s) then
        (if st = Absent then
           (if match_active_var py var (env_lines s ! index)
            then s\<lparr>env_lines := del_at index (env_lines s), changed := True, msg := ''var removed''\<rparr>
            else for_loop py var line_value st (index + 1) s)
         else
           (if match_var py var (env_lines s ! index) then
              (let should_export = (st = Exported \<or> (st = Present \<and> is_exported py (env_lines s ! index)));
                   new_line = (if should_export then ''export '' @ line_value else line_value);
                   var_changed = (env_lines s ! index \<noteq> new_line);
                   s' = s\<lparr>changed := (changed s \<or> var_changed),
                          env_lines := (env_lines s)[index := new_line],
                          matched_line := True\<rparr>
               in if var_changed
                  then s'\<lparr>msg := ''var changed'', env_lines := while_loop py var (index + 1) (env_lines s')\<rparr>
                  else s')
            else for_loop py var line_value st (index + 1) s))
      else s)"
  by pat_completeness auto
termination
  by (relation "measure (\<lambda>(py, var, line_value, st, index, s). length (env_lines s) - index)") auto

declare for_loop.simps [simp del]

text \<open>
  The part of \<open>apply\<close> between reading and writing the file, on the lines read
  (\<open>[]\<close> for a file that is created). The guard for the trailing newline names
  \<open>ini_lines\<close>, which is bound nowhere: where its condition holds the statement raises
  \<open>NameError\<close>, which nothing catches. The result is the final value of the local
  variables. The interpreter \<open>py\<close> is the one that runs the module.
\<close>

definition apply_core ::
  "python \<Rightarrow> string list \<Rightarrow> string \<Rightarrow> string \<Rightarrow> state \<Rightarrow> error + vars" where
  "apply_core py file_lines var val st =
     (let ls = (if file_lines = [] then file_lines @ [[NL]] else file_lines)
      in if last ls = [] \<or> last (last ls) \<noteq> NL then Inl NameError
         else
           (let line_value = var @ ''='' @ shell_escape (shlex py) val @ [NL];
                s = for_loop py var line_value st 0
                      \<lparr>env_lines = ls, changed = False, msg = [], matched_line = False\<rparr>
            in if st \<noteq> Absent \<and> \<not> matched_line s
               then Inr (s\<lparr>env_lines := env_lines s @ [if st \<noteq> Local then ''export '' @ line_value else line_value],
                          msg := ''var added'',
                          changed := True\<rparr>)
               else Inr s))"

subsection \<open>Notions for the statements\<close>

text \<open>
  The files on which the guard for the trailing newline has nothing to do: there is a last
  line, and it ends in a line feed.
\<close>

definition newline_terminated :: "string list \<Rightarrow> bool" where
  "newline_terminated ls = (ls \<noteq> [] \<and> last ls \<noteq> [] \<and> last (last ls) = NL)"

text \<open>
  A line as \<open>readlines\<close> returns it from a file that ends in a newline.
\<close>

definition line_terminated :: "string \<Rightarrow> bool" where
  "line_terminated l = (l \<noteq> [] \<and> last l = NL)"

text \<open>
  The line that lines 144 to 150 of \<open>apply\<close> put in the place of a matched line: the
  assignment \<open>line_value\<close>, behind \<open>export\<close> and a space when \<open>should_export\<close> holds.
\<close>

definition new_line_of :: "python \<Rightarrow> state \<Rightarrow> string \<Rightarrow> string \<Rightarrow> string" where
  "new_line_of py st line lv =
     (if st = Exported \<or> (st = Present \<and> is_exported py line) then ''export '' @ lv else lv)"

subsection \<open>The quoting the specification describes\<close>

text \<open>
  The specification's words for the escaping, for comparison with \<open>shell_escape\<close>: the
  value in single quotes, each single quote of the value replaced by the four characters
  quote, backslash, quote, quote.
\<close>

primrec spec_quote_body :: "string \<Rightarrow> string" where
  "spec_quote_body [] = []"
| "spec_quote_body (c # cs) = (if c = SQ then [SQ, BS, SQ, SQ] else [c]) @ spec_quote_body cs"

definition spec_shell_escape :: "string \<Rightarrow> string" where
  "spec_shell_escape text = SQ # spec_quote_body text @ [SQ]"

section \<open>Quoting\<close>

lemma replace_quote_body: "replace [SQ] [SQ, BS, SQ, SQ] s = spec_quote_body s"
  by (induction s) simp_all

text \<open>
  C3, as the specification states it, at the interpreter that has \<open>shlex.quote\<close>: a
  value of safe characters comes back without quotes, and a single quote is written with
  double quotes around it, not with a backslash.
\<close>

theorem shell_escape_shlex_counterexample:
  "shell_escape (Some shlex_quote) ''bar'' \<noteq> spec_shell_escape ''bar''
   \<and> shell_escape (Some shlex_quote) ''bar'' = ''bar''
   \<and> shell_escape (Some shlex_quote) ''it's'' \<noteq> spec_shell_escape ''it's''"
  by (simp add: shell_escape_def shlex_quote_def safe_char_def spec_shell_escape_def SQ_def BS_def DQ_def)

text \<open>
  C3, amended: where \<open>shlex.quote\<close> is missing, \<open>shell_escape\<close> is the quoting of the
  specification for every value, \<open>it's\<close> becomes \<open>'it'\''s'\<close> and a value without special
  characters is quoted all the same; where \<open>shlex.quote\<close> exists the result is whatever
  it returns.
\<close>

theorem shell_escape_fallback:
  "shell_escape None text = spec_shell_escape text
   \<and> shell_escape None ''it's'' = [SQ] @ ''it'' @ [SQ, BS, SQ, SQ] @ ''s'' @ [SQ]
   \<and> shell_escape None ''bar'' = [SQ] @ ''bar'' @ [SQ]
   \<and> shell_escape (Some quote) text = quote text"
proof -
  have general: "shell_escape None t = spec_shell_escape t" for t
    by (simp add: shell_escape_def replace_quote_body spec_shell_escape_def)
  have "spec_shell_escape ''it's'' = [SQ] @ ''it'' @ [SQ, BS, SQ, SQ] @ ''s'' @ [SQ]"
    by (simp add: spec_shell_escape_def SQ_def)
  moreover have "spec_shell_escape ''bar'' = [SQ] @ ''bar'' @ [SQ]"
    by (simp add: spec_shell_escape_def SQ_def)
  moreover have "shell_escape (Some quote) text = quote text"
    by (simp add: shell_escape_def)
  ultimately show ?thesis
    by (simp only: general)
qed

theorem shell_escape_fallback_witness:
  "shell_escape None ''a'b'' = [SQ] @ ''a'' @ [SQ, BS, SQ, SQ] @ ''b'' @ [SQ]"
  using shell_escape_fallback [of "''a'b''"]
  by (simp add: spec_shell_escape_def SQ_def)

section \<open>The classifier\<close>

text \<open>
  C4 at the line \<open>exportFOO=1\<close>: no whitespace follows the keyword, and \<open>is_exported\<close>
  holds, because the pattern has \<open>\s*\<close> after \<open>export\<close> where \<open>match_var\<close> and
  \<open>match_active_var\<close> have \<open>\s+\<close>.
\<close>

theorem is_exported_without_space:
  "is_exported Python2 ''exportFOO=1\<newline>'' \<and> is_exported Python3 ''exportFOO=1\<newline>''"
  by (simp add: is_exported_def is_space_def dot_def NL_def)

section \<open>The trailing newline\<close>

text \<open>
  C2 at the file whose only line is \<open>FOO=bar\<close> without a newline: the guard for the
  trailing newline raises \<open>NameError\<close>, in every state.
\<close>

theorem apply_core_unterminated_raises:
  "apply_core Python2 [''FOO=bar''] ''FOO'' ''bar'' Present = Inl NameError
   \<and> apply_core Python2 [''FOO=bar''] ''FOO'' ''bar'' Absent = Inl NameError
   \<and> apply_core Python3 [''FOO=bar''] ''FOO'' ''bar'' Present = Inl NameError
   \<and> apply_core Python3 [''FOO=bar''] ''FOO'' ''bar'' Absent = Inl NameError"
  by (simp add: apply_core_def NL_def)

section \<open>The loops\<close>

lemma take_del_at: "take k (del_at k ls) = take k ls"
  by (simp add: del_at_def min_def)

lemma drop_del_at: "drop k (del_at k ls) = drop (Suc k) ls"
  by (simp add: del_at_def min_def) 

lemma while_loop_filter:
  "while_loop py var k ls = take k ls @ filter (\<lambda>l. \<not> match_active_var py var l) (drop k ls)"
proof (induction py var k ls rule: while_loop.induct)
  case (1 py var index ls)
  show ?case
  proof (cases "index < length ls")
    case False
    then show ?thesis by (simp add: while_loop.simps [of py var index ls])
  next
    case inside: True
    then have split: "drop index ls = ls ! index # drop (Suc index) ls"
      by (simp add: Cons_nth_drop_Suc)
    show ?thesis
    proof (cases "match_active_var py var (ls ! index)")
      case True
      with inside 1(1) show ?thesis
        by (simp add: while_loop.simps [of py var index ls] take_del_at drop_del_at split)
    next
      case False
      with inside 1(2) show ?thesis
        by (simp add: while_loop.simps [of py var index ls] split take_Suc_conv_app_nth)
    qed
  qed
qed

lemma for_loop_absent_none:
  assumes "\<forall>j. k \<le> j \<and> j < length (env_lines s) \<longrightarrow> \<not> match_active_var py var (env_lines s ! j)"
  shows "for_loop py var lv Absent k s = s"
  using assms
proof (induction "length (env_lines s) - k" arbitrary: k)
  case 0
  then show ?case by (simp add: for_loop.simps [of py var lv Absent k s])
next
  case (Suc n)
  then have "k < length (env_lines s)" by simp
  moreover from Suc.prems have "\<not> match_active_var py var (env_lines s ! k)"
    using calculation by simp
  moreover have "for_loop py var lv Absent (k + 1) s = s"
    using Suc.hyps(2) Suc.prems by (intro Suc.hyps(1)) auto
  ultimately show ?case
    by (simp add: for_loop.simps [of py var lv Absent k s])
qed

lemma for_loop_absent_first:
  assumes "k \<le> i" "i < length (env_lines s)" "match_active_var py var (env_lines s ! i)"
    and "\<forall>j. k \<le> j \<and> j < i \<longrightarrow> \<not> match_active_var py var (env_lines s ! j)"
  shows "for_loop py var lv Absent k s =
         s\<lparr>env_lines := del_at i (env_lines s), changed := True, msg := ''var removed''\<rparr>"
  using assms
proof (induction "i - k" arbitrary: k)
  case 0
  then have "k = i" by simp
  with 0 show ?case by (simp add: for_loop.simps [of py var lv Absent i s])
next
  case (Suc n)
  then have lt: "k < i" by simp
  with Suc.prems have no: "\<not> match_active_var py var (env_lines s ! k)" by simp
  have "for_loop py var lv Absent (k + 1) s =
        s\<lparr>env_lines := del_at i (env_lines s), changed := True, msg := ''var removed''\<rparr>"
    using Suc.hyps(2) Suc.prems lt by (intro Suc.hyps(1)) auto
  with lt no Suc.prems(2) show ?case
    by (simp add: for_loop.simps [of py var lv Absent k s])
qed

lemma for_loop_update_none:
  assumes "st \<noteq> Absent"
    and "\<forall>j. k \<le> j \<and> j < length (env_lines s) \<longrightarrow> \<not> match_var py var (env_lines s ! j)"
  shows "for_loop py var lv st k s = s"
  using assms
proof (induction "length (env_lines s) - k" arbitrary: k)
  case 0
  then show ?case by (simp add: for_loop.simps [of py var lv st k s])
next
  case (Suc n)
  then have "k < length (env_lines s)" by simp
  moreover from Suc.prems have "\<not> match_var py var (env_lines s ! k)"
    using calculation by simp
  moreover have "for_loop py var lv st (k + 1) s = s"
    using Suc.hyps(2) Suc.prems by (intro Suc.hyps(1)) auto
  ultimately show ?case using \<open>st \<noteq> Absent\<close>
    by (simp add: for_loop.simps [of py var lv st k s])
qed

lemma for_loop_update_here:
  assumes "st \<noteq> Absent" "i < length (env_lines s)" "match_var py var (env_lines s ! i)"
  shows "for_loop py var lv st i s =
         (if env_lines s ! i \<noteq> new_line_of py st (env_lines s ! i) lv
          then s\<lparr>changed := True, matched_line := True, msg := ''var changed'',
                 env_lines := take i (env_lines s) @ new_line_of py st (env_lines s ! i) lv
                     # filter (\<lambda>l. \<not> match_active_var py var l) (drop (Suc i) (env_lines s))\<rparr>
          else s\<lparr>matched_line := True\<rparr>)"
proof -
  define nl where "nl = new_line_of py st (env_lines s ! i) lv"
  have step: "for_loop py var lv st i s =
        (if env_lines s ! i \<noteq> nl
         then s\<lparr>changed := True, matched_line := True, msg := ''var changed'',
                env_lines := while_loop py var (i + 1) ((env_lines s)[i := nl])\<rparr>
         else s\<lparr>env_lines := (env_lines s)[i := nl], matched_line := True\<rparr>)"
    using assms unfolding nl_def new_line_of_def
    by (simp add: for_loop.simps [of py var lv st i s] Let_def del: append.simps)
  show ?thesis
  proof (cases "env_lines s ! i = nl")
    case True
    then have "(env_lines s)[i := nl] = env_lines s"
      by (metis list_update_id)
    with True show ?thesis
      unfolding nl_def [symmetric] step by simp
  next
    case False
    have "take (Suc i) ((env_lines s)[i := nl]) = take i (env_lines s) @ [nl]"
      using assms(2) by (simp add: take_Suc_conv_app_nth)
    with False show ?thesis
      unfolding nl_def [symmetric] step by (simp add: while_loop_filter)
  qed
qed

lemma for_loop_update_first:
  assumes "st \<noteq> Absent" "k \<le> i" "i < length (env_lines s)" "match_var py var (env_lines s ! i)"
    and "\<forall>j. k \<le> j \<and> j < i \<longrightarrow> \<not> match_var py var (env_lines s ! j)"
  shows "for_loop py var lv st k s = for_loop py var lv st i s"
  using assms
proof (induction "i - k" arbitrary: k)
  case 0
  then show ?case by simp
next
  case (Suc n)
  then have lt: "k < i" by simp
  with Suc.prems have no: "\<not> match_var py var (env_lines s ! k)" by simp
  have "for_loop py var lv st (k + 1) s = for_loop py var lv st i s"
    using Suc.hyps(2) Suc.prems lt by (intro Suc.hyps(1)) auto
  with lt no Suc.prems(1,3) show ?case
    by (simp add: for_loop.simps [of py var lv st k s])
qed

section \<open>The result of apply on a file that passes the guard\<close>

lemma apply_core_empty: "apply_core py [] var val st = apply_core py [[NL]] var val st"
  by (simp add: apply_core_def)

lemma apply_core_guard:
  assumes "newline_terminated ls"
  shows "apply_core py ls var val st =
     (let line_value = var @ ''='' @ shell_escape (shlex py) val @ [NL];
          s = for_loop py var line_value st 0 \<lparr>env_lines = ls, changed = False, msg = [], matched_line = False\<rparr>
      in if st \<noteq> Absent \<and> \<not> matched_line s
         then Inr (s\<lparr>env_lines := env_lines s @ [if st \<noteq> Local then ''export '' @ line_value else line_value],
                    msg := ''var added'', changed := True\<rparr>)
         else Inr s)"
  using assms by (simp add: apply_core_def newline_terminated_def Let_def del: append.simps)

lemma apply_core_raises:
  assumes "ls \<noteq> []" "\<not> newline_terminated ls"
  shows "apply_core py ls var val st = Inl NameError"
  using assms by (auto simp add: apply_core_def newline_terminated_def Let_def)

lemma apply_core_returns:
  assumes "newline_terminated ls"
  shows "\<exists>r. apply_core py ls var val st = Inr r"
  unfolding apply_core_guard [OF assms] Let_def by (rule if_split [THEN iffD2]) blast

lemma apply_core_returns_iff:
  "(\<exists>r. apply_core py ls var val st = Inr r) \<longleftrightarrow> (ls = [] \<or> newline_terminated ls)"
proof (cases "ls = []")
  case True
  have "newline_terminated [[NL]]" by (simp add: newline_terminated_def)
  from apply_core_returns [OF this, of py var val st] True show ?thesis
    by (simp only: apply_core_empty) simp
next
  case False
  show ?thesis
  proof (cases "newline_terminated ls")
    case True
    from apply_core_returns [OF this, of py var val st] True show ?thesis by simp
  next
    case no: False
    from apply_core_raises [OF False no, of py var val st] False no show ?thesis by simp
  qed
qed

lemma apply_core_absent_none:
  assumes "newline_terminated ls"
    and "\<forall>j < length ls. \<not> match_active_var py var (ls ! j)"
  shows "apply_core py ls var val Absent =
         Inr \<lparr>env_lines = ls, changed = False, msg = [], matched_line = False\<rparr>"
  using assms(2)
  by (simp add: apply_core_guard [OF assms(1)] Let_def for_loop_absent_none)

lemma apply_core_absent_first:
  assumes "newline_terminated ls"
    and "i < length ls" "match_active_var py var (ls ! i)"
    and "\<forall>j < i. \<not> match_active_var py var (ls ! j)"
  shows "apply_core py ls var val Absent =
         Inr \<lparr>env_lines = del_at i ls, changed = True, msg = ''var removed'', matched_line = False\<rparr>"
proof -
  let ?s = "\<lparr>env_lines = ls, changed = False, msg = [], matched_line = False\<rparr>"
  have "for_loop py var lv Absent 0 ?s =
        ?s\<lparr>env_lines := del_at i (env_lines ?s), changed := True, msg := ''var removed''\<rparr>" for lv
    using assms(2-4) by (intro for_loop_absent_first) simp_all
  then show ?thesis
    by (simp add: apply_core_guard [OF assms(1)] Let_def)
qed

lemma apply_core_update_none:
  assumes "newline_terminated ls" "st \<noteq> Absent"
    and "\<forall>j < length ls. \<not> match_var py var (ls ! j)"
  shows "apply_core py ls var val st =
         Inr \<lparr>env_lines = ls @ [(if st \<noteq> Local then ''export '' else []) @ var @ ''='' @ shell_escape (shlex py) val @ [NL]],
              changed = True, msg = ''var added'', matched_line = False\<rparr>"
proof -
  let ?s = "\<lparr>env_lines = ls, changed = False, msg = [], matched_line = False\<rparr>"
  have "for_loop py var lv st 0 ?s = ?s" for lv
    using assms(2,3) by (intro for_loop_update_none) simp_all
  then show ?thesis using assms(2)
    by (simp add: apply_core_guard [OF assms(1)] Let_def)
qed

lemma apply_core_update_first:
  assumes "newline_terminated ls" "st \<noteq> Absent"
    and "i < length ls" "match_var py var (ls ! i)"
    and "\<forall>j < i. \<not> match_var py var (ls ! j)"
  shows "apply_core py ls var val st =
         (if ls ! i \<noteq> new_line_of py st (ls ! i) (var @ ''='' @ shell_escape (shlex py) val @ [NL])
          then Inr \<lparr>env_lines = take i ls @ new_line_of py st (ls ! i) (var @ ''='' @ shell_escape (shlex py) val @ [NL])
                       # filter (\<lambda>l. \<not> match_active_var py var l) (drop (Suc i) ls),
                    changed = True, msg = ''var changed'', matched_line = True\<rparr>
          else Inr \<lparr>env_lines = ls, changed = False, msg = [], matched_line = True\<rparr>)"
proof -
  let ?s = "\<lparr>env_lines = ls, changed = False, msg = [], matched_line = False\<rparr>"
  have "for_loop py var lv st 0 ?s = for_loop py var lv st i ?s" for lv
    using assms(2-5) by (intro for_loop_update_first) simp_all
  moreover have "for_loop py var lv st i ?s =
         (if env_lines ?s ! i \<noteq> new_line_of py st (env_lines ?s ! i) lv
          then ?s\<lparr>changed := True, matched_line := True, msg := ''var changed'',
                 env_lines := take i (env_lines ?s) @ new_line_of py st (env_lines ?s ! i) lv
                     # filter (\<lambda>l. \<not> match_active_var py var l) (drop (Suc i) (env_lines ?s))\<rparr>
          else ?s\<lparr>matched_line := True\<rparr>)" for lv
    using assms(2-4) by (intro for_loop_update_here) simp_all
  ultimately show ?thesis using assms(2)
    by (simp add: apply_core_guard [OF assms(1)] Let_def del: append.simps)
qed

lemma new_line_of_expand:
  "new_line_of py st line lv = (if st = Exported \<or> (st = Present \<and> is_exported py line) then ''export '' else []) @ lv"
  by (simp add: new_line_of_def)

section \<open>Facts about the patterns\<close>

lemma re_star_skip: "re_match p s \<Longrightarrow> re_match (Star P # p) s"
  by (cases s) simp_all

lemma re_opt_skip: "re_match p s \<Longrightarrow> re_match (Opt c # p) s"
  by (cases s) simp_all

lemma re_star_prefix: "list_all P w \<Longrightarrow> re_match p s \<Longrightarrow> re_match (Star P # p) (w @ s)"
  by (induction w) (simp_all add: re_star_skip)

lemma re_lit_append: "re_match (Lit t # p) (t @ s) = re_match p s"
  by simp

lemma re_dots_eol: "NL \<notin> set e \<Longrightarrow> re_match [Star dot, Eol] (e @ [NL])"
  by (induction e) (auto simp add: dot_def NL_def)

lemma re_plus_dots_eol: "e \<noteq> [] \<Longrightarrow> NL \<notin> set e \<Longrightarrow> re_match [Plus dot, Eol] (e @ [NL])"
  using re_dots_eol [of "tl e"] by (cases e) (auto simp add: dot_def NL_def)

lemma re_name_tail:
  "NL \<notin> set e \<Longrightarrow> re_match [Lit var, Lit ''='', Star dot, Eol] (var @ ''='' @ e @ [NL])"
  using re_dots_eol [of e] by simp

lemma match_active_var_line_value:
  assumes "NL \<notin> set e"
  shows "match_active_var py var (var @ ''='' @ e @ [NL])"
  unfolding match_active_var_def
  using re_star_skip [OF re_name_tail [OF assms]] by blast

lemma match_active_var_export_line:
  assumes "NL \<notin> set e"
  shows "match_active_var py var (''export '' @ var @ ''='' @ e @ [NL])"
proof -
  have "re_match [Star (is_space py), Lit var, Lit ''='', Star dot, Eol] (var @ ''='' @ e @ [NL])"
    by (rule re_star_skip [OF re_name_tail [OF assms]])
  then have "re_match [Lit ''export'', Plus (is_space py), Lit var, Lit ''='', Star dot, Eol]
               (''export '' @ var @ ''='' @ e @ [NL])"
    by (simp add: is_space_def)
  then show ?thesis
    unfolding match_active_var_def using re_star_skip by blast
qed

lemma match_active_imp_match_var:
  assumes "match_active_var py var l"
  shows "match_var py var l"
proof -
  have "re_match (Star (is_space py) # p) l \<Longrightarrow> re_match (Star (is_space py) # Opt c # Star (is_space py) # p) l" for p c
    by (induction l) (auto intro: re_star_skip re_opt_skip)
  with assms show ?thesis
    unfolding match_active_var_def match_var_def by blast
qed

lemma match_var_commented:
  assumes "list_all (is_space py) w" "match_active_var py var l"
  shows "match_var py var (w @ CHR ''#'' # l)"
proof -
  have "re_match p l \<Longrightarrow> re_match (Star (is_space py) # Opt (CHR ''#'') # p) (w @ CHR ''#'' # l)" for p
    by (rule re_star_prefix [OF assms(1)]) simp
  with assms(2) show ?thesis
    unfolding match_active_var_def match_var_def by blast
qed

lemma is_exported_export_line:
  assumes "NL \<notin> set var" "NL \<notin> set e"
  shows "is_exported py (''export '' @ var @ ''='' @ e @ [NL])"
proof -
  have "re_match [Plus dot, Eol] ((CHR '' '' # var @ ''='' @ e) @ [NL])"
    using assms by (intro re_plus_dots_eol) (simp_all add: NL_def)
  then have "re_match [Star (is_space py), Plus dot, Eol] (CHR '' '' # var @ ''='' @ e @ [NL])"
    using re_star_skip by fastforce
  then have "re_match [Lit ''export'', Star (is_space py), Plus dot, Eol] (''export '' @ var @ ''='' @ e @ [NL])"
    by simp
  then show ?thesis
    unfolding is_exported_def by (rule re_star_skip)
qed

lemma re_keyword_first:
  "re_match (Star (is_space py) # Lit (k # ks) # p) l \<Longrightarrow> \<not> is_space py k
   \<Longrightarrow> \<exists>r. dropWhile (is_space py) l = k # ks @ r"
proof (induction l)
  case Nil
  then show ?case by simp
next
  case (Cons x xs)
  from Cons.prems(1) consider
      (skip) "is_space py x" "re_match (Star (is_space py) # Lit (k # ks) # p) xs"
    | (here) "take (Suc (length ks)) (x # xs) = k # ks"
    by auto
  then show ?case
  proof cases
    case skip
    with Cons.IH Cons.prems(2) show ?thesis by simp
  next
    case here
    then have "x = k" by simp
    moreover have "x # xs = (k # ks) @ drop (Suc (length ks)) (x # xs)"
      using here by (metis append_take_drop_id)
    ultimately show ?thesis using Cons.prems(2) by auto
  qed
qed

lemma is_exported_keyword:
  assumes "is_exported py l"
  shows "\<exists>r. dropWhile (is_space py) l = ''export'' @ r"
proof -
  have "re_match (Star (is_space py) # Lit (CHR ''e'' # ''xport'') # [Star (is_space py), Plus dot, Eol]) l"
    using assms by (simp add: is_exported_def)
  then have "\<exists>r. dropWhile (is_space py) l = CHR ''e'' # ''xport'' @ r"
    by (rule re_keyword_first) (simp add: is_space_def)
  then show ?thesis by simp
qed

lemma commented_not_exported:
  assumes "list_all (is_space py) w"
  shows "\<not> is_exported py (w @ CHR ''#'' # l)"
proof
  assume "is_exported py (w @ CHR ''#'' # l)"
  then have "\<exists>r. dropWhile (is_space py) (w @ CHR ''#'' # l) = ''export'' @ r"
    by (rule is_exported_keyword)
  moreover have "dropWhile (is_space py) (w @ CHR ''#'' # l) = CHR ''#'' # l"
    using assms by (induction w) (simp_all add: is_space_def)
  ultimately show False by simp
qed

text \<open>
  The two interpreters part on a line that begins with a no-break space: Python 3 takes it
  for leading whitespace, Python 2 does not.
\<close>

lemma no_break_space_leads_python3_only:
  "match_active_var Python3 ''FOO'' (CHR 0xA0 # ''FOO=a\<newline>'')
   \<and> \<not> match_active_var Python2 ''FOO'' (CHR 0xA0 # ''FOO=a\<newline>'')"
  by (simp add: match_active_var_def is_space_def dot_def NL_def)

lemma newline_not_active: "\<not> match_active_var py var [NL]"
  by (cases var) (auto simp add: match_active_var_def is_space_def NL_def)

lemma newline_not_declared: "\<not> match_var py var [NL]"
  by (cases var) (auto simp add: match_var_def is_space_def NL_def)

section \<open>State absent\<close>

text \<open>
  On a file that passes the guard for the trailing newline, \<open>apply\<close> in state
  \<open>absent\<close> deletes the first line that is an active declaration of the variable, keeps
  every other line where it is, and reports \<open>changed\<close> with \<open>var removed\<close>; without an
  active declaration the lines stay as they are and nothing is reported. The empty file
  is seen as the one empty line, and nothing is reported either.
\<close>

lemma apply_core_absent_removes_first:
  assumes "newline_terminated ls"
  shows "(\<forall>i < length ls. match_active_var py var (ls ! i) \<and> (\<forall>j < i. \<not> match_active_var py var (ls ! j)) \<longrightarrow>
            apply_core py ls var val Absent =
              Inr \<lparr>env_lines = take i ls @ drop (Suc i) ls, changed = True,
                   msg = ''var removed'', matched_line = False\<rparr>)
       \<and> ((\<forall>j < length ls. \<not> match_active_var py var (ls ! j)) \<longrightarrow>
            apply_core py ls var val Absent =
              Inr \<lparr>env_lines = ls, changed = False, msg = [], matched_line = False\<rparr>)
       \<and> apply_core py [] var val Absent =
              Inr \<lparr>env_lines = [[NL]], changed = False, msg = [], matched_line = False\<rparr>"
proof -
  have "newline_terminated [[NL]]" by (simp add: newline_terminated_def)
  then have "apply_core py [[NL]] var val Absent =
       Inr \<lparr>env_lines = [[NL]], changed = False, msg = [], matched_line = False\<rparr>"
    by (rule apply_core_absent_none) (simp add: newline_not_active)
  then show ?thesis
    using apply_core_absent_first [OF assms] apply_core_absent_none [OF assms]
    by (simp add: del_at_def apply_core_empty)
qed

lemma apply_core_absent_removes_first_example:
  "apply_core Python2 [''#FOO=c\<newline>'', ''FOO=a\<newline>'', ''FOO=b\<newline>''] ''FOO'' [] Absent =
     Inr \<lparr>env_lines = [''#FOO=c\<newline>'', ''FOO=b\<newline>''], changed = True,
          msg = ''var removed'', matched_line = False\<rparr>
   \<and> apply_core Python2 [''#FOO=c\<newline>'', ''BAR=b\<newline>''] ''FOO'' [] Absent =
     Inr \<lparr>env_lines = [''#FOO=c\<newline>'', ''BAR=b\<newline>''], changed = False,
          msg = [], matched_line = False\<rparr>"
proof -
  have t1: "newline_terminated [''#FOO=c\<newline>'', ''FOO=a\<newline>'', ''FOO=b\<newline>'']"
    and t2: "newline_terminated [''#FOO=c\<newline>'', ''BAR=b\<newline>'']"
    by (simp_all add: newline_terminated_def NL_def)
  have m: "\<not> match_active_var Python2 ''FOO'' ''#FOO=c\<newline>''" "match_active_var Python2 ''FOO'' ''FOO=a\<newline>''"
    "\<not> match_active_var Python2 ''FOO'' ''BAR=b\<newline>''"
    by (simp_all add: match_active_var_def is_space_def dot_def NL_def)
  from apply_core_absent_removes_first [OF t1, of Python2 "''FOO''" "[]"] m
  have "apply_core Python2 [''#FOO=c\<newline>'', ''FOO=a\<newline>'', ''FOO=b\<newline>''] ''FOO'' [] Absent =
     Inr \<lparr>env_lines = [''#FOO=c\<newline>'', ''FOO=b\<newline>''], changed = True,
          msg = ''var removed'', matched_line = False\<rparr>"
    by (auto dest!: spec [of _ 1])
  moreover from apply_core_absent_removes_first [OF t2, of Python2 "''FOO''" "[]"] m
  have "apply_core Python2 [''#FOO=c\<newline>'', ''BAR=b\<newline>''] ''FOO'' [] Absent =
     Inr \<lparr>env_lines = [''#FOO=c\<newline>'', ''BAR=b\<newline>''], changed = False,
          msg = [], matched_line = False\<rparr>"
    by (simp add: less_Suc_eq)
  ultimately show ?thesis by simp
qed

text \<open>
  C6 at the file of the two lines \<open>FOO=a\<close> and \<open>FOO=b\<close>, the second without a newline, in
  state \<open>absent\<close>: the guard for the trailing newline raises \<open>NameError\<close> before the scan,
  and no line is removed.
\<close>

theorem apply_core_absent_unterminated_raises:
  "apply_core Python2 [''FOO=a\<newline>'', ''FOO=b''] ''FOO'' [] Absent = Inl NameError
   \<and> apply_core Python3 [''FOO=a\<newline>'', ''FOO=b''] ''FOO'' [] Absent = Inl NameError"
  by (simp add: apply_core_def NL_def)

section \<open>The line put in the place of the first match\<close>

lemma nth_rewritten:
  assumes "i < length ls"
  shows "(take i ls @ x # ys) ! i = x" "take i (take i ls @ x # ys) = take i ls"
    "drop (Suc i) (take i ls @ x # ys) = ys" "i < length (take i ls @ x # ys)"
  using assms by (simp_all add: nth_append)

lemma apply_core_first_match_line:
  assumes "newline_terminated ls" "st \<noteq> Absent"
    and "i < length ls" "match_var py var (ls ! i)" "\<forall>j < i. \<not> match_var py var (ls ! j)"
  shows "\<exists>r. apply_core py ls var val st = Inr r
           \<and> i < length (env_lines r)
           \<and> take i (env_lines r) = take i ls
           \<and> env_lines r ! i =
               (if st = Exported \<or> (st = Present \<and> is_exported py (ls ! i)) then ''export '' else [])
               @ var @ ''='' @ shell_escape (shlex py) val @ [NL]"
proof -
  let ?nl = "new_line_of py st (ls ! i) (var @ ''='' @ shell_escape (shlex py) val @ [NL])"
  show ?thesis
  proof (cases "ls ! i = ?nl")
    case True
    then have "apply_core py ls var val st =
               Inr \<lparr>env_lines = ls, changed = False, msg = [], matched_line = True\<rparr>"
      using apply_core_update_first [OF assms, of val] by simp
    moreover have "ls ! i = (if st = Exported \<or> (st = Present \<and> is_exported py (ls ! i)) then ''export '' else [])
               @ var @ ''='' @ shell_escape (shlex py) val @ [NL]"
      using True by (simp only: new_line_of_expand)
    ultimately show ?thesis using assms(3) by simp
  next
    case False
    then have "apply_core py ls var val st =
               Inr \<lparr>env_lines = take i ls @ ?nl # filter (\<lambda>l. \<not> match_active_var py var l) (drop (Suc i) ls),
                    changed = True, msg = ''var changed'', matched_line = True\<rparr>"
      using apply_core_update_first [OF assms, of val] by simp
    then show ?thesis
      using nth_rewritten [OF assms(3)] by (simp add: new_line_of_expand)
  qed
qed

text \<open>
  In the states \<open>present\<close>, \<open>local\<close> and \<open>exported\<close>, on a file that passes the guard
  for the trailing newline, the first line that \<open>match_var\<close> accepts is replaced by the
  assignment of the escaped value, with \<open>export\<close> and a space in front exactly when the
  state is \<open>exported\<close>, or the state is \<open>present\<close> and \<open>is_exported\<close> holds of the matched
  line. In state \<open>local\<close> nothing is put in front. The lines before it stay.
\<close>

lemma apply_core_replacement_line:
  assumes "newline_terminated ls" "st \<noteq> Absent"
    and "i < length ls" "match_var py var (ls ! i)" "\<forall>j < i. \<not> match_var py var (ls ! j)"
  shows "\<exists>r. apply_core py ls var val st = Inr r
           \<and> i < length (env_lines r)
           \<and> take i (env_lines r) = take i ls
           \<and> env_lines r ! i =
               (if st = Exported \<or> (st = Present \<and> is_exported py (ls ! i)) then ''export '' else [])
               @ var @ ''='' @ shell_escape (shlex py) val @ [NL]
           \<and> (st = Local \<longrightarrow> env_lines r ! i = var @ ''='' @ shell_escape (shlex py) val @ [NL])"
  using apply_core_first_match_line [OF assms, of val] by auto

lemma apply_core_replacement_line_example:
  "\<exists>r. apply_core Python2 [''BAR=1\<newline>'', ''export FOO=old\<newline>''] ''FOO'' ''new'' Present = Inr r
        \<and> env_lines r ! 1 = ''export FOO='' @ shell_escape (shlex Python2) ''new'' @ [NL]"
proof -
  have t: "newline_terminated [''BAR=1\<newline>'', ''export FOO=old\<newline>'']"
    by (simp add: newline_terminated_def NL_def)
  have m: "match_var Python2 ''FOO'' ([''BAR=1\<newline>'', ''export FOO=old\<newline>''] ! 1)"
    "\<forall>j < 1. \<not> match_var Python2 ''FOO'' ([''BAR=1\<newline>'', ''export FOO=old\<newline>''] ! j)"
    by (simp_all add: match_var_def is_space_def dot_def NL_def)
  have e: "is_exported Python2 ''export FOO=old\<newline>''"
    by (simp add: is_exported_def is_space_def dot_def NL_def)
  from apply_core_replacement_line [OF t _ _ m, of Present "''new''"] e
  show ?thesis by auto
qed

text \<open>
  C5 at the file of the one line \<open>FOO=old\<close> without a newline, in state \<open>present\<close>: the
  guard for the trailing newline raises \<open>NameError\<close> before the scan, and the matching
  line is not replaced.
\<close>

theorem apply_core_replacement_unterminated_raises:
  "apply_core Python2 [''FOO=old''] ''FOO'' ''new'' Present = Inl NameError
   \<and> apply_core Python3 [''FOO=old''] ''FOO'' ''new'' Present = Inl NameError"
  by (simp add: apply_core_def NL_def)

text \<open>
  In the states \<open>present\<close>, \<open>local\<close> and \<open>exported\<close>, on a file that passes the guard,
  when the line put in the place of the first match differs from the line that was there,
  the lines after it are the former ones without those that \<open>match_active_var\<close> accepts;
  when it is the same line, the file is left as it is and nothing is reported as changed.
\<close>

lemma apply_core_prunes_duplicates:
  assumes "newline_terminated ls" "st \<noteq> Absent"
    and "i < length ls" "match_var py var (ls ! i)" "\<forall>j < i. \<not> match_var py var (ls ! j)"
    and "new_line = (if st = Exported \<or> (st = Present \<and> is_exported py (ls ! i)) then ''export '' else [])
               @ var @ ''='' @ shell_escape (shlex py) val @ [NL]"
  shows "\<exists>r. apply_core py ls var val st = Inr r
           \<and> (ls ! i \<noteq> new_line \<longrightarrow>
                 changed r
                 \<and> drop (Suc i) (env_lines r) = filter (\<lambda>l. \<not> match_active_var py var l) (drop (Suc i) ls))
           \<and> (ls ! i = new_line \<longrightarrow> env_lines r = ls \<and> \<not> changed r)"
proof -
  have nl: "new_line = new_line_of py st (ls ! i) (var @ ''='' @ shell_escape (shlex py) val @ [NL])"
    using assms(6) by (simp only: new_line_of_expand)
  show ?thesis
    using apply_core_update_first [OF assms(1-5), of val] nth_rewritten [OF assms(3)]
    unfolding nl [symmetric] by (cases "ls ! i = new_line") simp_all
qed

lemma apply_core_prunes_duplicates_example:
  "\<exists>r. apply_core Python2 [''FOO=old\<newline>'', ''#FOO=c\<newline>'', ''FOO=dup\<newline>'', ''BAR=1\<newline>'']
          ''FOO'' ''new'' Present = Inr r
        \<and> drop 1 (env_lines r) = [''#FOO=c\<newline>'', ''BAR=1\<newline>'']"
proof -
  let ?ls = "[''FOO=old\<newline>'', ''#FOO=c\<newline>'', ''FOO=dup\<newline>'', ''BAR=1\<newline>'']"
  have t: "newline_terminated ?ls"
    by (simp add: newline_terminated_def NL_def)
  have m: "match_var Python2 ''FOO'' (?ls ! 0)" "\<forall>j < 0. \<not> match_var Python2 ''FOO'' (?ls ! j)"
    by (simp_all add: match_var_def is_space_def dot_def NL_def)
  have a: "filter (\<lambda>l. \<not> match_active_var Python2 ''FOO'' l) [''#FOO=c\<newline>'', ''FOO=dup\<newline>'', ''BAR=1\<newline>'']
           = [''#FOO=c\<newline>'', ''BAR=1\<newline>'']"
    by (simp add: match_active_var_def is_space_def dot_def NL_def)
  have d: "?ls ! 0 \<noteq> (if Present = Exported \<or> (Present = Present \<and> is_exported Python2 (?ls ! 0)) then ''export '' else [])
               @ ''FOO'' @ ''='' @ shell_escape (shlex Python2) ''new'' @ [NL]"
    by (simp add: is_exported_def is_space_def dot_def NL_def shell_escape_def shlex_def SQ_def)
  from apply_core_prunes_duplicates [OF t _ _ m refl, of Present "''new''"] d a
  show ?thesis by auto
qed

text \<open>
  C7 at the file of the two lines \<open>FOO=old\<close> and \<open>FOO=dup\<close>, the second without a newline,
  in state \<open>exported\<close>: the guard for the trailing newline raises \<open>NameError\<close> before the
  scan, and the duplicate is not removed.
\<close>

theorem apply_core_prune_unterminated_raises:
  "apply_core Python2 [''FOO=old\<newline>'', ''FOO=dup''] ''FOO'' ''new'' Exported = Inl NameError
   \<and> apply_core Python3 [''FOO=old\<newline>'', ''FOO=dup''] ''FOO'' ''new'' Exported = Inl NameError"
  by (simp add: apply_core_def NL_def)

section \<open>A variable that is not declared, and commented declarations\<close>

text \<open>
  C8, the instance the specification gives, at the interpreter that has \<open>shlex.quote\<close>:
  the line added for \<open>FOO\<close> with the value \<open>bar\<close> is \<open>export FOO=bar\<close>, without quotes.
\<close>

theorem apply_core_add_example_counterexample:
  "apply_core Python3 [''BAR=1\<newline>''] ''FOO'' ''bar'' Present =
     Inr \<lparr>env_lines = [''BAR=1\<newline>'', ''export FOO=bar\<newline>''], changed = True,
          msg = ''var added'', matched_line = False\<rparr>
   \<and> ''export FOO=bar\<newline>'' \<noteq> ''export FOO='' @ [SQ] @ ''bar'' @ [SQ, NL]"
proof -
  have t: "newline_terminated [''BAR=1\<newline>'']"
    by (simp add: newline_terminated_def NL_def)
  have m: "\<forall>j < length [''BAR=1\<newline>'']. \<not> match_var Python3 ''FOO'' ([''BAR=1\<newline>''] ! j)"
    by (simp add: match_var_def is_space_def dot_def NL_def)
  have q: "shell_escape (shlex Python3) ''bar'' = ''bar''"
    by (simp add: shell_escape_def shlex_def shlex_quote_def safe_char_def)
  show ?thesis
    using apply_core_update_none [OF t _ m, of Present "''bar''"]
    by (simp add: q NL_def)
qed

text \<open>
  C8, amended: in the states \<open>present\<close>, \<open>local\<close> and \<open>exported\<close>, on a file whose last
  line ends in a newline and which has no line that \<open>match_var\<close> accepts, \<open>apply\<close> adds the
  assignment of the escaped value as the last line, with \<open>export\<close> and a space in front
  unless the state is \<open>local\<close>, and reports \<open>changed\<close> with \<open>var added\<close>. For \<open>FOO\<close>, \<open>bar\<close>
  and \<open>present\<close> the added line is \<open>export FOO='bar'\<close> under Python 2, where \<open>shlex.quote\<close>
  is missing, and \<open>export FOO=bar\<close> under Python 3, where it exists. On the empty file the
  line is added after the one empty line.
\<close>

theorem apply_core_adds_missing:
  assumes "newline_terminated ls" "st \<noteq> Absent"
    and "\<forall>j < length ls. \<not> match_var py var (ls ! j)"
  shows "apply_core py ls var val st =
           Inr \<lparr>env_lines = ls @ [(if st \<noteq> Local then ''export '' else []) @ var @ ''='' @ shell_escape (shlex py) val @ [NL]],
                changed = True, msg = ''var added'', matched_line = False\<rparr>
         \<and> (var = ''FOO'' \<and> val = ''bar'' \<and> st = Present \<longrightarrow>
              apply_core py ls var val st =
                Inr \<lparr>env_lines = ls @ [case py of
                                          Python2 \<Rightarrow> ''export FOO='' @ [SQ] @ ''bar'' @ [SQ, NL]
                                        | Python3 \<Rightarrow> ''export FOO=bar'' @ [NL]],
                     changed = True, msg = ''var added'', matched_line = False\<rparr>)
         \<and> apply_core py [] var val st =
           Inr \<lparr>env_lines = [[NL], (if st \<noteq> Local then ''export '' else []) @ var @ ''='' @ shell_escape (shlex py) val @ [NL]],
                changed = True, msg = ''var added'', matched_line = False\<rparr>"
proof -
  have "newline_terminated [[NL]]" by (simp add: newline_terminated_def)
  from apply_core_update_none [OF this assms(2), of py var val]
  have created: "apply_core py [] var val st =
           Inr \<lparr>env_lines = [[NL], (if st \<noteq> Local then ''export '' else []) @ var @ ''='' @ shell_escape (shlex py) val @ [NL]],
                changed = True, msg = ''var added'', matched_line = False\<rparr>"
    by (simp add: newline_not_declared apply_core_empty)
  have general: "apply_core py ls var val st =
           Inr \<lparr>env_lines = ls @ [(if st \<noteq> Local then ''export '' else []) @ var @ ''='' @ shell_escape (shlex py) val @ [NL]],
                changed = True, msg = ''var added'', matched_line = False\<rparr>"
    by (rule apply_core_update_none [OF assms])
  have "shell_escape (shlex py) ''bar'' =
          (case py of Python2 \<Rightarrow> [SQ] @ ''bar'' @ [SQ] | Python3 \<Rightarrow> ''bar'')"
    by (cases py) (simp_all add: shell_escape_def shlex_def shlex_quote_def safe_char_def SQ_def)
  then have "[''export FOO'' @ ''='' @ shell_escape (shlex py) ''bar'' @ [NL]] =
          [case py of Python2 \<Rightarrow> ''export FOO='' @ [SQ] @ ''bar'' @ [SQ, NL]
                    | Python3 \<Rightarrow> ''export FOO=bar'' @ [NL]]"
    by (cases py) simp_all
  with general have "var = ''FOO'' \<and> val = ''bar'' \<and> st = Present \<longrightarrow>
              apply_core py ls var val st =
                Inr \<lparr>env_lines = ls @ [case py of
                                          Python2 \<Rightarrow> ''export FOO='' @ [SQ] @ ''bar'' @ [SQ, NL]
                                        | Python3 \<Rightarrow> ''export FOO=bar'' @ [NL]],
                     changed = True, msg = ''var added'', matched_line = False\<rparr>"
    by auto
  with general created show ?thesis by blast
qed

theorem apply_core_adds_missing_witness:
  "apply_core Python2 [''BAR=1\<newline>''] ''FOO'' ''bar'' Local =
     Inr \<lparr>env_lines = [''BAR=1\<newline>'', ''FOO='' @ [SQ] @ ''bar'' @ [SQ, NL]], changed = True,
          msg = ''var added'', matched_line = False\<rparr>"
proof -
  have t: "newline_terminated [''BAR=1\<newline>'']"
    by (simp add: newline_terminated_def NL_def)
  have m: "\<forall>j < length [''BAR=1\<newline>'']. \<not> match_var Python2 ''FOO'' ([''BAR=1\<newline>''] ! j)"
    by (simp add: match_var_def is_space_def dot_def NL_def)
  have "shell_escape (shlex Python2) ''bar'' = [SQ] @ ''bar'' @ [SQ]"
    by (simp add: shell_escape_def shlex_def SQ_def)
  then show ?thesis
    using apply_core_adds_missing [OF t _ m, of Local "''bar''"] by simp
qed

text \<open>
  C9, the instance the specification gives, at the interpreter that has \<open>shlex.quote\<close>:
  the file of the one line \<open>#FOO=old\<close> becomes the one line \<open>FOO=new\<close>, without quotes.
\<close>

theorem apply_core_comment_example_counterexample:
  "apply_core Python3 [''#FOO=old\<newline>''] ''FOO'' ''new'' Present =
     Inr \<lparr>env_lines = [''FOO=new\<newline>''], changed = True,
          msg = ''var changed'', matched_line = True\<rparr>
   \<and> ''FOO=new\<newline>'' \<noteq> ''FOO='' @ [SQ] @ ''new'' @ [SQ, NL]"
proof -
  have t: "newline_terminated [''#FOO=old\<newline>'']"
    by (simp add: newline_terminated_def NL_def)
  have m: "match_var Python3 ''FOO'' ([''#FOO=old\<newline>''] ! 0)"
    by (simp add: match_var_def is_space_def dot_def NL_def)
  have e: "\<not> is_exported Python3 ''#FOO=old\<newline>''"
    by (simp add: is_exported_def is_space_def dot_def NL_def)
  have q: "shell_escape (shlex Python3) ''new'' = ''new''"
    by (simp add: shell_escape_def shlex_def shlex_quote_def safe_char_def)
  show ?thesis
    using apply_core_update_first [OF t _ _ m, of Present "''new''"] e
    by (simp add: q NL_def new_line_of_def)
qed

text \<open>
  C9, amended: a commented declaration (whitespace, \<open>#\<close>, and then a line that
  \<open>match_active_var\<close> accepts) is accepted by \<open>match_var\<close>; when it is the first such line
  of a file whose last line ends in a newline, in the states \<open>present\<close>, \<open>local\<close> and
  \<open>exported\<close> it is replaced by the assignment of the escaped value, behind \<open>export\<close> in
  state \<open>exported\<close> only, and \<open>match_active_var\<close> accepts the new line when the escaped
  value has no line feed. The file of the one line \<open>#FOO=old\<close> becomes \<open>FOO='new'\<close> under
  Python 2, where \<open>shlex.quote\<close> is missing, and \<open>FOO=new\<close> under Python 3.
\<close>

theorem apply_core_activates_comment:
  assumes "newline_terminated ls" "st \<noteq> Absent"
    and "i < length ls" "ls ! i = w @ CHR ''#'' # l" "list_all (is_space py) w" "match_active_var py var l"
    and "\<forall>j < i. \<not> match_var py var (ls ! j)"
  shows "match_var py var (ls ! i)
         \<and> (\<exists>r. apply_core py ls var val st = Inr r
              \<and> i < length (env_lines r)
              \<and> env_lines r ! i = (if st = Exported then ''export '' else []) @ var @ ''='' @ shell_escape (shlex py) val @ [NL]
              \<and> (NL \<notin> set (shell_escape (shlex py) val) \<longrightarrow> match_active_var py var (env_lines r ! i)))
         \<and> apply_core Python2 [''#FOO=old\<newline>''] ''FOO'' ''new'' Present =
              Inr \<lparr>env_lines = [''FOO='' @ [SQ] @ ''new'' @ [SQ, NL]], changed = True,
                   msg = ''var changed'', matched_line = True\<rparr>
         \<and> apply_core Python3 [''#FOO=old\<newline>''] ''FOO'' ''new'' Present =
              Inr \<lparr>env_lines = [''FOO=new'' @ [NL]], changed = True,
                   msg = ''var changed'', matched_line = True\<rparr>"
proof -
  have site: "match_var py var (ls ! i)"
    using assms(4-6) by (simp add: match_var_commented)
  have inert: "\<not> is_exported py (ls ! i)"
    using assms(4,5) by (simp add: commented_not_exported)
  from apply_core_first_match_line [OF assms(1-3) site assms(7), of val]
  obtain r where r: "apply_core py ls var val st = Inr r" "i < length (env_lines r)"
    "env_lines r ! i = (if st = Exported then ''export '' else []) @ var @ ''='' @ shell_escape (shlex py) val @ [NL]"
    using inert by auto
  have "match_active_var py var (env_lines r ! i)" if "NL \<notin> set (shell_escape (shlex py) val)"
    using that match_active_var_line_value [of "shell_escape (shlex py) val" py var]
      match_active_var_export_line [of "shell_escape (shlex py) val" py var]
    by (simp add: r(3))
  with r have general: "\<exists>r. apply_core py ls var val st = Inr r
              \<and> i < length (env_lines r)
              \<and> env_lines r ! i = (if st = Exported then ''export '' else []) @ var @ ''='' @ shell_escape (shlex py) val @ [NL]
              \<and> (NL \<notin> set (shell_escape (shlex py) val) \<longrightarrow> match_active_var py var (env_lines r ! i))"
    by blast
  have t: "newline_terminated [''#FOO=old\<newline>'']"
    by (simp add: newline_terminated_def NL_def)
  have m: "match_var p ''FOO'' ([''#FOO=old\<newline>''] ! 0)" for p
    by (simp add: match_var_def is_space_def dot_def NL_def)
  have e: "\<not> is_exported p ''#FOO=old\<newline>''" for p
    by (simp add: is_exported_def is_space_def dot_def NL_def)
  have "shell_escape (shlex Python2) ''new'' = [SQ] @ ''new'' @ [SQ]"
    by (simp add: shell_escape_def shlex_def SQ_def)
  then have example2: "apply_core Python2 [''#FOO=old\<newline>''] ''FOO'' ''new'' Present =
              Inr \<lparr>env_lines = [''FOO='' @ [SQ] @ ''new'' @ [SQ, NL]], changed = True,
                   msg = ''var changed'', matched_line = True\<rparr>"
    using apply_core_update_first [OF t _ _ m [of Python2], of Present "''new''"] e [of Python2]
    by (simp add: new_line_of_def SQ_def NL_def)
  have "shell_escape (shlex Python3) ''new'' = ''new''"
    by (simp add: shell_escape_def shlex_def shlex_quote_def safe_char_def)
  then have example3: "apply_core Python3 [''#FOO=old\<newline>''] ''FOO'' ''new'' Present =
              Inr \<lparr>env_lines = [''FOO=new'' @ [NL]], changed = True,
                   msg = ''var changed'', matched_line = True\<rparr>"
    using apply_core_update_first [OF t _ _ m [of Python3], of Present "''new''"] e [of Python3]
    by (simp add: new_line_of_def NL_def)
  from site general example2 example3 show ?thesis by blast
qed

theorem apply_core_activates_comment_witness:
  "\<exists>r. apply_core Python2 [''BAR=1\<newline>'', '' # FOO=old\<newline>''] ''FOO'' ''new'' Exported = Inr r
        \<and> env_lines r ! 1 = ''export FOO='' @ shell_escape (shlex Python2) ''new'' @ [NL]
        \<and> match_active_var Python2 ''FOO'' (env_lines r ! 1)"
proof -
  let ?ls = "[''BAR=1\<newline>'', '' # FOO=old\<newline>'']"
  have t: "newline_terminated ?ls"
    by (simp add: newline_terminated_def NL_def)
  have c: "?ls ! 1 = '' '' @ CHR ''#'' # '' FOO=old\<newline>''" "list_all (is_space Python2) '' ''"
    by (simp_all add: is_space_def)
  have m: "match_active_var Python2 ''FOO'' '' FOO=old\<newline>''" "\<forall>j < 1. \<not> match_var Python2 ''FOO'' (?ls ! j)"
    by (simp_all add: match_active_var_def match_var_def is_space_def dot_def NL_def)
  have n: "NL \<notin> set (shell_escape (shlex Python2) ''new'')"
    by (simp add: shell_escape_def shlex_def SQ_def NL_def)
  from apply_core_activates_comment [OF t _ _ c m, of Exported "''new''"] n
  show ?thesis by auto
qed

text \<open>
  \<open>is_exported\<close> is false of every line whose first character after the leading
  whitespace is \<open>#\<close>; in state \<open>present\<close>, when such a line is the first that \<open>match_var\<close>
  accepts in a file that passes the guard, the line put in its place is the bare
  assignment, without \<open>export\<close>. The example runs \<open>#export FOO=old\<close> and
  \<open># export FOO=old\<close>.
\<close>

lemma apply_core_uncomment_drops_export:
  assumes "newline_terminated ls"
    and "i < length ls" "ls ! i = w @ CHR ''#'' # l" "list_all (is_space py) w"
    and "match_var py var (ls ! i)" "\<forall>j < i. \<not> match_var py var (ls ! j)"
  shows "\<not> is_exported py (ls ! i)
         \<and> (\<exists>r. apply_core py ls var val Present = Inr r
              \<and> i < length (env_lines r)
              \<and> env_lines r ! i = var @ ''='' @ shell_escape (shlex py) val @ [NL])"
proof -
  have inert: "\<not> is_exported py (ls ! i)"
    using assms(3,4) by (simp add: commented_not_exported)
  with apply_core_first_match_line [OF assms(1) _ assms(2,5,6), of Present val]
  show ?thesis by auto
qed

lemma apply_core_uncomment_drops_export_example:
  "(\<exists>r. apply_core Python2 [''#export FOO=old\<newline>''] ''FOO'' ''new'' Present = Inr r
        \<and> env_lines r ! 0 = ''FOO='' @ shell_escape (shlex Python2) ''new'' @ [NL])
   \<and> (\<exists>r. apply_core Python2 [''# export FOO=old\<newline>''] ''FOO'' ''new'' Present = Inr r
        \<and> env_lines r ! 0 = ''FOO='' @ shell_escape (shlex Python2) ''new'' @ [NL])"
proof -
  have t: "newline_terminated [''#export FOO=old\<newline>'']" "newline_terminated [''# export FOO=old\<newline>'']"
    by (simp_all add: newline_terminated_def NL_def)
  have c: "[''#export FOO=old\<newline>''] ! 0 = [] @ CHR ''#'' # ''export FOO=old\<newline>''"
    "[''# export FOO=old\<newline>''] ! 0 = [] @ CHR ''#'' # '' export FOO=old\<newline>''"
    "list_all (is_space Python2) []"
    by simp_all
  have m: "match_var Python2 ''FOO'' ([''#export FOO=old\<newline>''] ! 0)"
    "match_var Python2 ''FOO'' ([''# export FOO=old\<newline>''] ! 0)"
    by (simp_all add: match_var_def is_space_def dot_def NL_def)
  from apply_core_uncomment_drops_export [OF t(1) _ c(1) c(3) m(1), of "''new''"]
    apply_core_uncomment_drops_export [OF t(2) _ c(2) c(3) m(2), of "''new''"]
  show ?thesis by auto
qed

text \<open>
  C10 at the file of the one line \<open>#export FOO=old\<close> without a newline, in state
  \<open>present\<close>: the guard for the trailing newline raises \<open>NameError\<close> before the scan, and
  no line is rewritten.
\<close>

theorem apply_core_uncomment_unterminated_raises:
  "apply_core Python2 [''#export FOO=old''] ''FOO'' ''new'' Present = Inl NameError
   \<and> apply_core Python3 [''#export FOO=old''] ''FOO'' ''new'' Present = Inl NameError"
  by (simp add: apply_core_def NL_def)

section \<open>Running apply twice\<close>

lemma first_index_cases:
  obtains (none) "\<forall>j < length ls. \<not> P (ls ! j)"
  | (first) i where "i < length ls" "P (ls ! i)" "\<forall>j < i. \<not> P (ls ! j)"
proof (cases "\<exists>j < length ls. P (ls ! j)")
  case False
  then show ?thesis using none by blast
next
  case True
  define i where "i = (LEAST j. j < length ls \<and> P (ls ! j))"
  from True have "i < length ls \<and> P (ls ! i)"
    unfolding i_def by (metis (mono_tags, lifting) LeastI)
  moreover have "\<forall>j < i. \<not> P (ls ! j)"
  proof (intro allI impI)
    fix j assume "j < i"
    then have "\<not> (j < length ls \<and> P (ls ! j))"
      unfolding i_def by (rule not_less_Least)
    moreover from \<open>j < i\<close> \<open>i < length ls \<and> P (ls ! i)\<close> have "j < length ls" by simp
    ultimately show "\<not> P (ls ! j)" by simp
  qed
  ultimately show ?thesis using first by blast
qed

lemma all_terminated_guard:
  "list_all line_terminated ls \<Longrightarrow> ls \<noteq> [] \<Longrightarrow> newline_terminated ls"
  by (simp add: newline_terminated_def list_all_iff line_terminated_def)

lemma apply_core_settled:
  assumes "newline_terminated out" "st \<noteq> Absent"
    and "i < length out" "match_var py var (out ! i)" "\<forall>j < i. \<not> match_var py var (out ! j)"
    and "new_line_of py st (out ! i) (var @ ''='' @ shell_escape (shlex py) val @ [NL]) = out ! i"
  shows "apply_core py out var val st =
         Inr \<lparr>env_lines = out, changed = False, msg = [], matched_line = True\<rparr>"
  using apply_core_update_first [OF assms(1-5), of val] assms(6) by simp

lemma new_line_of_fixed:
  assumes "NL \<notin> set var" "NL \<notin> set e"
    and "st = Present \<longrightarrow> \<not> is_exported py (var @ ''='' @ e @ [NL])"
  shows "new_line_of py st (new_line_of py st line (var @ ''='' @ e @ [NL])) (var @ ''='' @ e @ [NL])
         = new_line_of py st line (var @ ''='' @ e @ [NL])"
  using assms is_exported_export_line [of var e]
  by (cases st) (simp_all add: new_line_of_def)

lemma new_line_of_added:
  assumes "NL \<notin> set var" "NL \<notin> set e" "st \<noteq> Absent"
  shows "new_line_of py st ((if st \<noteq> Local then ''export '' else []) @ var @ ''='' @ e @ [NL]) (var @ ''='' @ e @ [NL])
         = (if st \<noteq> Local then ''export '' else []) @ var @ ''='' @ e @ [NL]"
  using assms is_exported_export_line [of var e]
  by (cases st) (simp_all add: new_line_of_def)

lemma match_var_new_line:
  assumes "NL \<notin> set e"
  shows "match_var py var (new_line_of py st line (var @ ''='' @ e @ [NL]))"
    and "match_var py var ((if c then ''export '' else []) @ var @ ''='' @ e @ [NL])"
  using match_active_var_line_value [OF assms, of py var] match_active_var_export_line [OF assms, of py var]
  by (auto simp add: new_line_of_def intro: match_active_imp_match_var)

lemma new_line_terminated:
  "line_terminated (new_line_of py st line (var @ ''='' @ e @ [NL]))"
  by (simp add: new_line_of_def line_terminated_def)

lemma idem_update:
  assumes T: "list_all line_terminated ls" "ls \<noteq> []" and st: "st \<noteq> Absent"
    and nl: "NL \<notin> set var" "NL \<notin> set (shell_escape (shlex py) val)"
    and ex: "st = Present \<longrightarrow> \<not> is_exported py (var @ ''='' @ shell_escape (shlex py) val @ [NL])"
  shows "\<exists>r1. apply_core py ls var val st = Inr r1 \<and> env_lines r1 \<noteq> []
           \<and> apply_core py (env_lines r1) var val st =
               Inr \<lparr>env_lines = env_lines r1, changed = False, msg = [], matched_line = True\<rparr>"
proof -
  let ?lv = "var @ ''='' @ shell_escape (shlex py) val @ [NL]"
  have guard: "newline_terminated ls" using T by (rule all_terminated_guard)
  show ?thesis
  proof (cases rule: first_index_cases [where ls = ls and P = "match_var py var"])
    case none
    let ?a = "(if st \<noteq> Local then ''export '' else []) @ ?lv"
    let ?out = "ls @ [?a]"
    have r1: "apply_core py ls var val st =
              Inr \<lparr>env_lines = ?out, changed = True, msg = ''var added'', matched_line = False\<rparr>"
      using apply_core_update_none [OF guard st none, of val] by simp
    have "newline_terminated ?out" by (simp add: newline_terminated_def)
    moreover have "length ls < length ?out" by simp
    moreover have "match_var py var (?out ! length ls)"
      using match_var_new_line(2) [OF nl(2), where var = var and c = "st \<noteq> Local" and py = py] by simp
    moreover have "\<forall>j < length ls. \<not> match_var py var (?out ! j)"
      using none by (simp add: nth_append)
    moreover have "new_line_of py st (?out ! length ls) ?lv = ?out ! length ls"
      using new_line_of_added [OF nl st] by simp
    ultimately have "apply_core py ?out var val st =
         Inr \<lparr>env_lines = ?out, changed = False, msg = [], matched_line = True\<rparr>"
      using st by (intro apply_core_settled)
    with r1 show ?thesis by simp
  next
    case (first i)
    let ?nl = "new_line_of py st (ls ! i) ?lv"
    show ?thesis
    proof (cases "ls ! i = ?nl")
      case True
      then have "apply_core py ls var val st =
                 Inr \<lparr>env_lines = ls, changed = False, msg = [], matched_line = True\<rparr>"
        using apply_core_update_first [OF guard st first, of val] by simp
      with T(2) show ?thesis by simp
    next
      case False
      let ?out = "take i ls @ ?nl # filter (\<lambda>l. \<not> match_active_var py var l) (drop (Suc i) ls)"
      have r1: "apply_core py ls var val st =
                Inr \<lparr>env_lines = ?out, changed = True, msg = ''var changed'', matched_line = True\<rparr>"
        using False apply_core_update_first [OF guard st first, of val] by simp
      have "list_all line_terminated (take i ls)"
        "list_all line_terminated (filter (\<lambda>l. \<not> match_active_var py var l) (drop (Suc i) ls))"
        using T(1) by (auto simp add: list_all_iff dest: in_set_takeD in_set_dropD)
      then have "list_all line_terminated ?out"
        using new_line_terminated [of py st "ls ! i" var "shell_escape (shlex py) val"] by simp
      then have "newline_terminated ?out" by (rule all_terminated_guard) simp
      moreover have "i < length ?out" using first(1) by simp
      moreover have at: "?out ! i = ?nl" using first(1) by (simp add: nth_append)
      moreover have "match_var py var (?out ! i)"
        unfolding at by (rule match_var_new_line(1) [OF nl(2)])
      moreover have "\<forall>j < i. \<not> match_var py var (?out ! j)"
        using first(1,3) by (simp add: nth_append)
      moreover have "new_line_of py st (?out ! i) ?lv = ?out ! i"
        unfolding at by (rule new_line_of_fixed [OF nl ex])
      ultimately have "apply_core py ?out var val st =
           Inr \<lparr>env_lines = ?out, changed = False, msg = [], matched_line = True\<rparr>"
        using st by (intro apply_core_settled)
      with r1 show ?thesis by simp
    qed
  qed
qed

lemma single_active:
  assumes "length (filter P ls) \<le> 1" "i < length ls" "P (ls ! i)"
  shows "\<forall>j < length (del_at i ls). \<not> P (del_at i ls ! j)"
proof -
  have "ls = take i ls @ ls ! i # drop (Suc i) ls"
    using assms(2) by (rule id_take_nth_drop)
  then have "filter P ls = filter P (take i ls) @ ls ! i # filter P (drop (Suc i) ls)"
    using assms(3) by (metis filter.simps(2) filter_append)
  with assms(1) have "filter P (take i ls) = []" "filter P (drop (Suc i) ls) = []"
    by simp_all
  then have "\<forall>x \<in> set (del_at i ls). \<not> P x"
    by (auto simp add: del_at_def filter_empty_conv)
  then show ?thesis by simp
qed

lemma idem_absent:
  assumes T: "list_all line_terminated ls" "ls \<noteq> []"
    and one: "length (filter (match_active_var py var) ls) \<le> 1"
  shows "\<exists>r1 r2. apply_core py ls var val Absent = Inr r1
           \<and> apply_core py (env_lines r1) var val Absent = Inr r2
           \<and> \<not> changed r2 \<and> (env_lines r1 \<noteq> [] \<longrightarrow> env_lines r2 = env_lines r1)"
proof -
  have guard: "newline_terminated ls" using T by (rule all_terminated_guard)
  show ?thesis
  proof (cases rule: first_index_cases [where ls = ls and P = "match_active_var py var"])
    case none
    from apply_core_absent_none [OF guard none, of val] show ?thesis by simp
  next
    case (first i)
    let ?out = "del_at i ls"
    have r1: "apply_core py ls var val Absent =
              Inr \<lparr>env_lines = ?out, changed = True, msg = ''var removed'', matched_line = False\<rparr>"
      by (rule apply_core_absent_first [OF guard first])
    have rest: "\<forall>j < length ?out. \<not> match_active_var py var (?out ! j)"
      using one first(1,2) by (rule single_active)
    show ?thesis
    proof (cases "?out = []")
      case True
      have "newline_terminated [[NL]]" by (simp add: newline_terminated_def)
      then have "apply_core py [[NL]] var val Absent =
            Inr \<lparr>env_lines = [[NL]], changed = False, msg = [], matched_line = False\<rparr>"
        by (rule apply_core_absent_none) (simp add: newline_not_active)
      with r1 True show ?thesis by (simp add: apply_core_empty)
    next
      case False
      have "list_all line_terminated ?out"
        using T(1) by (auto simp add: del_at_def list_all_iff dest: in_set_takeD in_set_dropD)
      then have "newline_terminated ?out" using False by (rule all_terminated_guard)
      then have "apply_core py ?out var val Absent =
            Inr \<lparr>env_lines = ?out, changed = False, msg = [], matched_line = False\<rparr>"
        using rest by (rule apply_core_absent_none)
      with r1 show ?thesis by simp
    qed
  qed
qed

text \<open>
  C1, as the specification states it, in state \<open>absent\<close> on a file with two active
  declarations: the first run removes the first of them, and the second run, on the
  output of the first, removes the other and reports \<open>changed\<close> again.
\<close>

theorem apply_core_absent_twice_counterexample:
  "apply_core Python2 [''FOO=a\<newline>'', ''FOO=b\<newline>''] ''FOO'' [] Absent =
     Inr \<lparr>env_lines = [''FOO=b\<newline>''], changed = True, msg = ''var removed'', matched_line = False\<rparr>
   \<and> apply_core Python2 [''FOO=b\<newline>''] ''FOO'' [] Absent =
     Inr \<lparr>env_lines = [], changed = True, msg = ''var removed'', matched_line = False\<rparr>
   \<and> apply_core Python3 [''FOO=a\<newline>'', ''FOO=b\<newline>''] ''FOO'' [] Absent =
     Inr \<lparr>env_lines = [''FOO=b\<newline>''], changed = True, msg = ''var removed'', matched_line = False\<rparr>
   \<and> apply_core Python3 [''FOO=b\<newline>''] ''FOO'' [] Absent =
     Inr \<lparr>env_lines = [], changed = True, msg = ''var removed'', matched_line = False\<rparr>"
proof -
  have t: "newline_terminated [''FOO=a\<newline>'', ''FOO=b\<newline>'']" "newline_terminated [''FOO=b\<newline>'']"
    by (simp_all add: newline_terminated_def NL_def)
  have m: "match_active_var p ''FOO'' ''FOO=a\<newline>''" "match_active_var p ''FOO'' ''FOO=b\<newline>''" for p
    by (simp_all add: match_active_var_def is_space_def dot_def NL_def)
  from apply_core_absent_first [OF t(1), of 0 Python2 "''FOO''" "[]"]
    apply_core_absent_first [OF t(2), of 0 Python2 "''FOO''" "[]"]
    apply_core_absent_first [OF t(1), of 0 Python3 "''FOO''" "[]"]
    apply_core_absent_first [OF t(2), of 0 Python3 "''FOO''" "[]"] m
  show ?thesis by (simp add: del_at_def)
qed

text \<open>
  The interpreters part on a file whose first line begins with a no-break space: in
  state \<open>absent\<close> Python 3 removes that line, Python 2 the next one.
\<close>

lemma apply_core_absent_no_break_space:
  "apply_core Python3 [CHR 0xA0 # ''FOO=a\<newline>'', ''FOO=b\<newline>''] ''FOO'' [] Absent =
     Inr \<lparr>env_lines = [''FOO=b\<newline>''], changed = True, msg = ''var removed'', matched_line = False\<rparr>
   \<and> apply_core Python2 [CHR 0xA0 # ''FOO=a\<newline>'', ''FOO=b\<newline>''] ''FOO'' [] Absent =
     Inr \<lparr>env_lines = [CHR 0xA0 # ''FOO=a\<newline>''], changed = True, msg = ''var removed'',
          matched_line = False\<rparr>"
proof -
  let ?ls = "[CHR 0xA0 # ''FOO=a\<newline>'', ''FOO=b\<newline>'']"
  have t: "newline_terminated ?ls"
    by (simp add: newline_terminated_def NL_def)
  have m: "match_active_var Python3 ''FOO'' (?ls ! 0)" "\<not> match_active_var Python2 ''FOO'' (?ls ! 0)"
    "match_active_var Python2 ''FOO'' (?ls ! 1)"
    by (simp_all add: match_active_var_def is_space_def dot_def NL_def)
  from apply_core_absent_first [OF t, of 0 Python3 "''FOO''" "[]"]
    apply_core_absent_first [OF t, of 1 Python2 "''FOO''" "[]"] m
  show ?thesis by (simp add: del_at_def)
qed

text \<open>
  Two more runs that repeat: a value with a line feed in it is added again every time,
  because \<open>.*$\<close> does not reach over the line feed; and a variable whose name begins with
  \<open>export\<close> gets the keyword in front on the second run, because \<open>is_exported\<close> takes
  the name for the keyword.
\<close>

lemma apply_core_repeats_newline_value:
  "apply_core Python2 [''A=1\<newline>''] ''FOO'' ''a\<newline>b'' Local =
     Inr \<lparr>env_lines = [''A=1\<newline>'', ''FOO='' @ [SQ] @ ''a\<newline>b'' @ [SQ, NL]],
          changed = True, msg = ''var added'', matched_line = False\<rparr>
   \<and> apply_core Python2 [''A=1\<newline>'', ''FOO='' @ [SQ] @ ''a\<newline>b'' @ [SQ, NL]] ''FOO'' ''a\<newline>b'' Local =
     Inr \<lparr>env_lines = [''A=1\<newline>'', ''FOO='' @ [SQ] @ ''a\<newline>b'' @ [SQ, NL],
                        ''FOO='' @ [SQ] @ ''a\<newline>b'' @ [SQ, NL]],
          changed = True, msg = ''var added'', matched_line = False\<rparr>"
proof -
  let ?l = "''FOO='' @ [SQ] @ ''a\<newline>b'' @ [SQ, NL]"
  have t: "newline_terminated [''A=1\<newline>'']" "newline_terminated [''A=1\<newline>'', ?l]"
    by (simp_all add: newline_terminated_def NL_def)
  have m: "\<not> match_var Python2 ''FOO'' ''A=1\<newline>''" "\<not> match_var Python2 ''FOO'' ?l"
    by (simp_all add: match_var_def is_space_def dot_def NL_def SQ_def)
  have q: "shell_escape (shlex Python2) ''a\<newline>b'' = [SQ] @ ''a\<newline>b'' @ [SQ]"
    by (simp add: shell_escape_def shlex_def SQ_def)
  from apply_core_update_none [OF t(1), of Local Python2 "''FOO''" "''a\<newline>b''"]
    apply_core_update_none [OF t(2), of Local Python2 "''FOO''" "''a\<newline>b''"] m
  show ?thesis by (simp add: q less_Suc_eq)
qed

lemma apply_core_repeats_export_name:
  "apply_core Python2 [''#export_x=old\<newline>''] ''export_x'' ''new'' Present =
     Inr \<lparr>env_lines = [''export_x='' @ [SQ] @ ''new'' @ [SQ, NL]],
          changed = True, msg = ''var changed'', matched_line = True\<rparr>
   \<and> apply_core Python2 [''export_x='' @ [SQ] @ ''new'' @ [SQ, NL]] ''export_x'' ''new'' Present =
     Inr \<lparr>env_lines = [''export export_x='' @ [SQ] @ ''new'' @ [SQ, NL]],
          changed = True, msg = ''var changed'', matched_line = True\<rparr>"
proof -
  let ?l = "''export_x='' @ [SQ] @ ''new'' @ [SQ, NL]"
  have t: "newline_terminated [''#export_x=old\<newline>'']" "newline_terminated [?l]"
    by (simp_all add: newline_terminated_def NL_def)
  have m: "match_var Python2 ''export_x'' ([''#export_x=old\<newline>''] ! 0)" "match_var Python2 ''export_x'' ([?l] ! 0)"
    by (simp_all add: match_var_def is_space_def dot_def NL_def SQ_def)
  have e: "\<not> is_exported Python2 ''#export_x=old\<newline>''" "is_exported Python2 ?l"
    by (simp_all add: is_exported_def is_space_def dot_def NL_def SQ_def)
  have q: "shell_escape (shlex Python2) ''new'' = [SQ] @ ''new'' @ [SQ]"
    by (simp add: shell_escape_def shlex_def SQ_def)
  from apply_core_update_first [OF t(1) _ _ m(1), of Present "''new''"]
    apply_core_update_first [OF t(2) _ _ m(2), of Present "''new''"] e
  show ?thesis by (simp add: q new_line_of_def SQ_def NL_def)
qed

text \<open>
  C1, amended, under either interpreter: let every line of the file end in a line feed,
  and let neither the name nor the escaped value contain one. In the states \<open>local\<close> and \<open>exported\<close>, in state
  \<open>present\<close> when \<open>is_exported\<close> is false of the bare assignment of the escaped value, and
  in state \<open>absent\<close> when at most one line is an active declaration, \<open>apply\<close> returns, a
  second run on the lines of the first returns with \<open>changed\<close> false, and its lines are
  those of the first run (unless the first run left no line at all, where the second
  sees the file as empty).
\<close>

theorem apply_core_idempotent:
  assumes "list_all line_terminated ls"
    and "NL \<notin> set var" "NL \<notin> set (shell_escape (shlex py) val)"
    and "st = Present \<longrightarrow> \<not> is_exported py (var @ ''='' @ shell_escape (shlex py) val @ [NL])"
    and "st = Absent \<longrightarrow> length (filter (match_active_var py var) ls) \<le> 1"
  shows "\<exists>r1 r2. apply_core py ls var val st = Inr r1
           \<and> apply_core py (env_lines r1) var val st = Inr r2
           \<and> \<not> changed r2
           \<and> (env_lines r1 \<noteq> [] \<longrightarrow> env_lines r2 = env_lines r1)"
proof -
  have main: "\<exists>r1 r2. apply_core py xs var val st = Inr r1
           \<and> apply_core py (env_lines r1) var val st = Inr r2
           \<and> \<not> changed r2
           \<and> (env_lines r1 \<noteq> [] \<longrightarrow> env_lines r2 = env_lines r1)"
    if T: "list_all line_terminated xs" "xs \<noteq> []"
      and one: "st = Absent \<longrightarrow> length (filter (match_active_var py var) xs) \<le> 1" for xs
  proof (cases "st = Absent")
    case True
    with idem_absent [OF T, of py var val] one show ?thesis by simp
  next
    case False
    from idem_update [OF T False assms(2,3,4)] show ?thesis by force
  qed
  show ?thesis
  proof (cases "ls = []")
    case False
    with main [of ls] assms(1,5) show ?thesis by simp
  next
    case True
    have "list_all line_terminated [[NL]]" by (simp add: line_terminated_def)
    from main [OF this] show ?thesis
      unfolding True apply_core_empty [of py var val st] by simp
  qed
qed

theorem apply_core_idempotent_witness:
  "\<exists>r1 r2. apply_core Python2 [''FOO=old\<newline>'', ''FOO=dup\<newline>''] ''FOO'' ''new'' Present = Inr r1
     \<and> apply_core Python2 (env_lines r1) ''FOO'' ''new'' Present = Inr r2
     \<and> \<not> changed r2 \<and> env_lines r2 = env_lines r1
     \<and> env_lines r1 = [''FOO='' @ [SQ] @ ''new'' @ [SQ, NL]]"
proof -
  let ?ls = "[''FOO=old\<newline>'', ''FOO=dup\<newline>'']"
  have q: "shell_escape (shlex Python2) ''new'' = [SQ] @ ''new'' @ [SQ]"
    by (simp add: shell_escape_def shlex_def SQ_def)
  have h: "list_all line_terminated ?ls" "NL \<notin> set ''FOO''" "NL \<notin> set (shell_escape (shlex Python2) ''new'')"
    "Present = Present \<longrightarrow> \<not> is_exported Python2 (''FOO'' @ ''='' @ shell_escape (shlex Python2) ''new'' @ [NL])"
    "Present = Absent \<longrightarrow> length (filter (match_active_var Python2 ''FOO'') ?ls) \<le> 1"
    by (simp_all add: q line_terminated_def is_exported_def is_space_def NL_def SQ_def)
  have t: "newline_terminated ?ls"
    by (simp add: newline_terminated_def NL_def)
  have m: "match_var Python2 ''FOO'' (?ls ! 0)" "match_active_var Python2 ''FOO'' ''FOO=dup\<newline>''"
    "\<not> is_exported Python2 ''FOO=old\<newline>''"
    by (simp_all add: match_var_def match_active_var_def is_exported_def is_space_def dot_def NL_def)
  have first: "apply_core Python2 ?ls ''FOO'' ''new'' Present =
     Inr \<lparr>env_lines = [''FOO='' @ [SQ] @ ''new'' @ [SQ, NL]], changed = True,
          msg = ''var changed'', matched_line = True\<rparr>"
    using apply_core_update_first [OF t _ _ m(1), of Present "''new''"] m(2,3)
    by (simp add: q new_line_of_def SQ_def NL_def)
  from apply_core_idempotent [OF h] first show ?thesis by auto
qed

end
